theory Spec2Isabelle
  imports Complex_Main "HOL-Library.AList" "HOL-Library.Multiset"
begin

section \<open>Text primitives of the Python runtime\<close>

text \<open>
  Python strings are sequences of Unicode code points. The embedding uses \<open>string\<close>,
  whose characters are the code points below 256 (Latin-1): \<open>CHR 0xF8\<close> is the letter
  o-slash of the citation marker, one character as in Python. The classification of
  characters below is Python's on that range.
\<close>

definition isspace :: "char \<Rightarrow> bool" where
  \<comment> \<open>\<open>str.isspace\<close>: the characters that \<open>str.strip()\<close> removes.\<close>
  "isspace c =
     (let n = (of_char c :: nat)
      in (9 \<le> n \<and> n \<le> 13) \<or> (28 \<le> n \<and> n \<le> 32) \<or> n = 133 \<or> n = 160)"

definition strip :: "string \<Rightarrow> string" where
  \<comment> \<open>\<open>s.strip()\<close>: leading and trailing whitespace removed.\<close>
  "strip s = rev (dropWhile isspace (rev (dropWhile isspace s)))"

fun split_nl :: "string \<Rightarrow> string list" where
  \<comment> \<open>\<open>s.split('\n')\<close>: never empty, \<open>''.split('\n') == ['']\<close>.\<close>
  "split_nl [] = [[]]"
| "split_nl (c # cs) =
     (if c = CHR 0x0A then [] # split_nl cs
      else (case split_nl cs of [] \<Rightarrow> [[c]] | l # ls \<Rightarrow> (c # l) # ls))"

fun join_nl :: "string list \<Rightarrow> string" where
  \<comment> \<open>\<open>'\n'.join(lines)\<close>\<close>
  "join_nl [] = []"
| "join_nl [l] = l"
| "join_nl (l # l' # ls) = l @ CHR 0x0A # join_nl (l' # ls)"

section \<open>JSON values and \<open>json.loads\<close>\<close>

text \<open>
  What \<open>json.loads\<close> returns: \<open>None\<close>, a bool, an int, a float (kept as the literal
  that denotes it, \<open>NaN\<close> and the infinities included), a str, a list or a dict. A dict
  is an association list with distinct keys in insertion order.
\<close>

datatype json =
    JNull
  | JBool bool
  | JInt int
  | JFloat string
  | JStr string
  | JArr "json list"
  | JObj "(string \<times> json) list"

type_synonym dict = "(string \<times> json) list"

definition dict_get :: "dict \<Rightarrow> string \<Rightarrow> json \<Rightarrow> json" where
  \<comment> \<open>\<open>d.get(key, default)\<close>; \<open>d.get(key)\<close> is \<open>dict_get d key JNull\<close>.\<close>
  "dict_get d k dflt = (case map_of d k of None \<Rightarrow> dflt | Some v \<Rightarrow> v)"

subsection \<open>A decoder for the closed examples\<close>

text \<open>
  \<open>json.loads\<close> belongs to the standard library, so the connector below takes the
  decoder as a parameter \<open>loads\<close> (\<open>None\<close> stands for \<open>json.JSONDecodeError\<close>) and its
  theorems hold for every decoder. The closed examples run the decoder \<open>json_loads\<close>
  defined here: JSON as Python's default decoder reads it, on Latin-1 text (a
  \<open>\uXXXX\<close> escape of a code point from 256 on has no character in this model and is
  refused). It recurses on fuel; two calls consume at least one character, and the
  fuel given is twice the length of the text plus two.
\<close>

definition json_ws :: "char \<Rightarrow> bool" where
  "json_ws c = (c = CHR '' '' \<or> c = CHR 0x09 \<or> c = CHR 0x0A \<or> c = CHR 0x0D)"

definition skip_ws :: "string \<Rightarrow> string" where
  "skip_ws s = dropWhile json_ws s"

definition expect :: "string \<Rightarrow> string \<Rightarrow> string option" where
  \<comment> \<open>the rest of \<open>s\<close> after the prefix \<open>p\<close>\<close>
  "expect p s = (if take (length p) s = p then Some (drop (length p) s) else None)"

definition is_digit :: "char \<Rightarrow> bool" where
  "is_digit c = (let n = (of_char c :: nat) in 48 \<le> n \<and> n \<le> 57)"

definition hex_val :: "char \<Rightarrow> nat option" where
  "hex_val c =
     (let n = (of_char c :: nat)
      in if 48 \<le> n \<and> n \<le> 57 then Some (n - 48)
         else if 65 \<le> n \<and> n \<le> 70 then Some (n - 55)
         else if 97 \<le> n \<and> n \<le> 102 then Some (n - 87)
         else None)"

fun int_of_digits :: "nat \<Rightarrow> string \<Rightarrow> nat" where
  "int_of_digits acc [] = acc"
| "int_of_digits acc (c # cs) = int_of_digits (10 * acc + (of_char c - 48)) cs"

definition dec_exponent :: "string \<Rightarrow> string \<times> string" where
  \<comment> \<open>\<open>([eE][-+]?[0-9]+)?\<close>: the text matched and the rest\<close>
  "dec_exponent s =
     (case s of
        [] \<Rightarrow> ([], s)
      | c # r \<Rightarrow>
          if c = CHR ''e'' \<or> c = CHR ''E'' then
            (let sg = (case r of [] \<Rightarrow> [] | d # _ \<Rightarrow> if d = CHR ''-'' \<or> d = CHR ''+'' then [d] else []);
                 r' = drop (length sg) r;
                 ed = takeWhile is_digit r'
             in if ed = [] then ([], s) else (c # sg @ ed, drop (length ed) r'))
          else ([], s))"

definition dec_fraction :: "string \<Rightarrow> string \<times> string" where
  \<comment> \<open>\<open>(\.[0-9]+)?\<close>\<close>
  "dec_fraction s =
     (case expect ''.'' s of
        None \<Rightarrow> ([], s)
      | Some r \<Rightarrow>
          (let fd = takeWhile is_digit r
           in if fd = [] then ([], s) else (CHR ''.'' # fd, drop (length fd) r)))"

definition dec_number :: "string \<Rightarrow> (json \<times> string) option" where
  \<comment> \<open>\<open>(-?(?:0|[1-9][0-9]*))(\.[0-9]+)?([eE][-+]?[0-9]+)?\<close>: an int when only the first
      group matched, a float otherwise\<close>
  "dec_number s =
     (let neg = (expect ''-'' s \<noteq> None);
          s1 = (if neg then tl s else s);
          ds = takeWhile is_digit s1
      in if ds = [] then None
         else
           (let ip = (if hd ds = CHR ''0'' then ''0'' else ds);
                (frac, r2) = dec_fraction (drop (length ip) s1);
                (ex, r3) = dec_exponent r2
            in if frac = [] \<and> ex = []
               then Some (JInt ((if neg then - 1 else 1) * int (int_of_digits 0 ip)), r3)
               else Some (JFloat ((if neg then ''-'' else []) @ ip @ frac @ ex), r3)))"

definition dec_escape :: "char \<Rightarrow> char option" where
  "dec_escape c =
     (if c = CHR 0x22 then Some (CHR 0x22)
      else if c = CHR 0x5C then Some (CHR 0x5C)
      else if c = CHR ''/'' then Some (CHR ''/'')
      else if c = CHR ''b'' then Some (CHR 0x08)
      else if c = CHR ''f'' then Some (CHR 0x0C)
      else if c = CHR ''n'' then Some (CHR 0x0A)
      else if c = CHR ''r'' then Some (CHR 0x0D)
      else if c = CHR ''t'' then Some (CHR 0x09)
      else None)"

fun dec_string :: "string \<Rightarrow> (string \<times> string) option" where
  \<comment> \<open>the text after an opening quote: the string decoded and the rest after the
      closing quote\<close>
  "dec_string [] = None"
| "dec_string [c] = (if c = CHR 0x22 then Some ([], []) else None)"
| "dec_string (c # d # cs) =
     (if c = CHR 0x22 then Some ([], d # cs)
      else if c = CHR 0x5C then
        (if d = CHR ''u'' then
           (case map hex_val (take 4 cs) of
              [Some a, Some b, Some e, Some f] \<Rightarrow>
                (if a = 0 \<and> b = 0 then
                   (case dec_string (drop 4 cs) of
                      None \<Rightarrow> None
                    | Some (t, r) \<Rightarrow> Some (char_of (16 * e + f) # t, r))
                 else None)
            | _ \<Rightarrow> None)
         else
           (case dec_escape d of
              None \<Rightarrow> None
            | Some x \<Rightarrow>
                (case dec_string cs of None \<Rightarrow> None | Some (t, r) \<Rightarrow> Some (x # t, r))))
      else if (of_char c :: nat) < 32 then None
      else (case dec_string (d # cs) of None \<Rightarrow> None | Some (t, r) \<Rightarrow> Some (c # t, r)))"

definition dec_literal :: "string \<Rightarrow> (json \<times> string) option" where
  "dec_literal s =
     (case expect ''null'' s of Some r \<Rightarrow> Some (JNull, r) | None \<Rightarrow>
      (case expect ''true'' s of Some r \<Rightarrow> Some (JBool True, r) | None \<Rightarrow>
      (case expect ''false'' s of Some r \<Rightarrow> Some (JBool False, r) | None \<Rightarrow>
      (case expect ''NaN'' s of Some r \<Rightarrow> Some (JFloat ''NaN'', r) | None \<Rightarrow>
      (case expect ''Infinity'' s of Some r \<Rightarrow> Some (JFloat ''Infinity'', r) | None \<Rightarrow>
      (case expect ''-Infinity'' s of Some r \<Rightarrow> Some (JFloat ''-Infinity'', r) | None \<Rightarrow>
       dec_number s))))))"

fun dec_value :: "nat \<Rightarrow> string \<Rightarrow> (json \<times> string) option"
  and dec_array :: "nat \<Rightarrow> string \<Rightarrow> json list \<Rightarrow> (json \<times> string) option"
  and dec_object :: "nat \<Rightarrow> string \<Rightarrow> dict \<Rightarrow> (json \<times> string) option" where
  "dec_value 0 s = None"
| "dec_value (Suc n) s =
     (case expect [CHR 0x22] s of
        Some r \<Rightarrow> (case dec_string r of None \<Rightarrow> None | Some (t, r') \<Rightarrow> Some (JStr t, r'))
      | None \<Rightarrow>
     (case expect ''['' s of
        Some r \<Rightarrow>
          (case expect '']'' (skip_ws r) of
             Some r' \<Rightarrow> Some (JArr [], r')
           | None \<Rightarrow> dec_array n (skip_ws r) [])
      | None \<Rightarrow>
     (case expect ''{'' s of
        Some r \<Rightarrow>
          (case expect ''}'' (skip_ws r) of
             Some r' \<Rightarrow> Some (JObj [], r')
           | None \<Rightarrow> dec_object n (skip_ws r) [])
      | None \<Rightarrow> dec_literal s)))"
| "dec_array 0 s acc = None"
| "dec_array (Suc n) s acc =
     (case dec_value n s of
        None \<Rightarrow> None
      | Some (v, r) \<Rightarrow>
          (case expect '','' (skip_ws r) of
             Some r' \<Rightarrow> dec_array n (skip_ws r') (acc @ [v])
           | None \<Rightarrow>
               (case expect '']'' (skip_ws r) of
                  Some r' \<Rightarrow> Some (JArr (acc @ [v]), r')
                | None \<Rightarrow> None)))"
| "dec_object 0 s acc = None"
| "dec_object (Suc n) s acc =
     (case expect [CHR 0x22] s of
        None \<Rightarrow> None
      | Some r0 \<Rightarrow>
     (case dec_string r0 of
        None \<Rightarrow> None
      | Some (k, r1) \<Rightarrow>
     (case expect '':'' (skip_ws r1) of
        None \<Rightarrow> None
      | Some r2 \<Rightarrow>
     (case dec_value n (skip_ws r2) of
        None \<Rightarrow> None
      | Some (v, r3) \<Rightarrow>
          (case expect '','' (skip_ws r3) of
             Some r4 \<Rightarrow> dec_object n (skip_ws r4) (AList.update k v acc)
           | None \<Rightarrow>
               (case expect ''}'' (skip_ws r3) of
                  Some r4 \<Rightarrow> Some (JObj (AList.update k v acc), r4)
                | None \<Rightarrow> None))))))"

definition json_loads :: "string \<Rightarrow> json option" where
  "json_loads s =
     (case dec_value (2 * length s + 2) (skip_ws s) of
        None \<Rightarrow> None
      | Some (v, r) \<Rightarrow> if skip_ws r = [] then Some v else None)"

section \<open>The connector: \<open>LexLLMConnector\<close>\<close>

datatype error =
    ConnectionError string
  | RuntimeError string
  | JSONDecodeError
  | AttributeError
  | TypeError
  | ValidationError
  | Propagated string

subsection \<open>\<open>_parse_ndjson_stream\<close>\<close>

text \<open>The local variables of the loop.\<close>

record stream_vars =
  response_chunks :: "json list"
  sources :: json
  conversation_history :: json
  conversation_id :: json
  run_id :: json

definition initial_vars :: stream_vars where
  "initial_vars =
     \<lparr>response_chunks = [], sources = JArr [], conversation_history = JArr [],
      conversation_id = JStr [], run_id = JStr []\<rparr>"

definition handle_event :: "json \<Rightarrow> stream_vars \<Rightarrow> error + stream_vars" where
  \<comment> \<open>The loop body after \<open>json.loads\<close>. \<open>event.get\<close> raises AttributeError on a value
      that is not a dict, and so does \<open>.get\<close> on the \<open>data\<close> of a \<open>stream_end\<close>.\<close>
  "handle_event event v =
     (case event of
        JObj d \<Rightarrow>
          (let event_type = dict_get d ''event'' JNull
           in if event_type = JStr ''stream_start'' then
                Inr (v\<lparr>conversation_id := dict_get d ''conversation_id'' (JStr []),
                       run_id := dict_get d ''run_id'' (JStr [])\<rparr>)
              else if event_type = JStr ''sources'' then
                Inr (v\<lparr>sources := dict_get d ''data'' (JArr [])\<rparr>)
              else if event_type = JStr ''text_chunk'' then
                Inr (v\<lparr>response_chunks := response_chunks v @ [dict_get d ''data'' (JStr [])]\<rparr>)
              else if event_type = JStr ''stream_end'' then
                (case dict_get d ''data'' (JObj []) of
                   JObj dd \<Rightarrow>
                     Inr (v\<lparr>conversation_history := dict_get dd ''conversation_history'' (JArr [])\<rparr>)
                 | _ \<Rightarrow> Inl AttributeError)
              else Inr v)
      | _ \<Rightarrow> Inl AttributeError)"

fun parse_lines :: "(string \<Rightarrow> json option) \<Rightarrow> string list \<Rightarrow> stream_vars \<Rightarrow> error + stream_vars" where
  \<comment> \<open>\<open>for line in ...: if not line: continue; event = json.loads(line); ...\<close>\<close>
  "parse_lines loads [] v = Inr v"
| "parse_lines loads (line # rest) v =
     (if line = [] then parse_lines loads rest v
      else
        (case loads line of
           None \<Rightarrow> Inl JSONDecodeError
         | Some event \<Rightarrow>
             (case handle_event event v of
                Inl e \<Rightarrow> Inl e
              | Inr v' \<Rightarrow> parse_lines loads rest v')))"

fun join_chunks :: "json list \<Rightarrow> error + string" where
  \<comment> \<open>\<open>"".join(response_chunks)\<close>: TypeError on an item that is not a str\<close>
  "join_chunks [] = Inr []"
| "join_chunks (JStr s # cs) =
     (case join_chunks cs of Inl e \<Rightarrow> Inl e | Inr t \<Rightarrow> Inr (s @ t))"
| "join_chunks (_ # cs) = Inl TypeError"

definition fold_lines :: "(string \<Rightarrow> json option) \<Rightarrow> string list \<Rightarrow> error + dict" where
  \<comment> \<open>the loop over the lines, from the initial values, and the dict returned after it\<close>
  "fold_lines loads lines =
     (case parse_lines loads lines initial_vars of
        Inl e \<Rightarrow> Inl e
      | Inr v \<Rightarrow>
          (case join_chunks (response_chunks v) of
             Inl e \<Rightarrow> Inl e
           | Inr text \<Rightarrow>
               Inr [(''conversation_id'', conversation_id v),
                    (''run_id'', run_id v),
                    (''response'', JStr text),
                    (''sources'', sources v),
                    (''conversation_history'', conversation_history v)]))"

definition parse_ndjson_stream :: "(string \<Rightarrow> json option) \<Rightarrow> string \<Rightarrow> error + dict" where
  \<comment> \<open>\<open>for line in ndjson_text.strip().split('\n'): ...\<close>\<close>
  "parse_ndjson_stream loads ndjson_text = fold_lines loads (split_nl (strip ndjson_text))"

subsection \<open>\<open>run_workflow\<close> and \<open>health_check\<close>\<close>

text \<open>
  What an \<open>httpx\<close> request comes to: an \<open>httpx.RequestError\<close> (the transport failed:
  host unreachable, timeout, connection reset) with its text, any other exception, or a
  response with its status code and body. The client is a parameter: \<open>post url payload\<close>
  and \<open>get url\<close> give the outcome of the one request made.
\<close>

datatype http_outcome =
    RequestError string
  | OtherException string
  | Response nat string

definition is_success :: "nat \<Rightarrow> bool" where
  \<comment> \<open>\<open>raise_for_status\<close> raises \<open>httpx.HTTPStatusError\<close> unless the status is 2xx\<close>
  "is_success status_code = (200 \<le> status_code \<and> status_code \<le> 299)"

definition run_url :: "string \<Rightarrow> string \<Rightarrow> string" where
  "run_url base_url workflow_id = base_url @ ''/workflows/'' @ workflow_id @ ''/run''"

definition run_payload :: "string \<Rightarrow> string \<Rightarrow> json list option \<Rightarrow> json" where
  "run_payload user_input conv_id history =
     JObj [(''user_input'', JStr user_input),
           (''conversation_id'', JStr conv_id),
           (''conversation_history'',
              JArr (case history of None \<Rightarrow> [] | Some h \<Rightarrow> h))]"

definition run_workflow ::
  "(string \<Rightarrow> json \<Rightarrow> http_outcome) \<Rightarrow> (string \<Rightarrow> json option) \<Rightarrow> (dict \<Rightarrow> 'r option) \<Rightarrow>
   string \<Rightarrow> string \<Rightarrow> string \<Rightarrow> string \<Rightarrow> json list option \<Rightarrow> error + 'r" where
  \<comment> \<open>\<open>validate\<close> is the constructor \<open>WorkflowResult(**result_data)\<close> of the pydantic
      model; \<open>None\<close> stands for its ValidationError. Only the two \<open>httpx\<close> exceptions
      are caught; whatever parsing or validation raises leaves the function.\<close>
  "run_workflow post loads validate base_url workflow_id user_input conv_id history =
     (case post (run_url base_url workflow_id) (run_payload user_input conv_id history) of
        RequestError e \<Rightarrow>
          Inl (ConnectionError (''Failed to connect to lex-llm at '' @ base_url @ '': '' @ e))
      | OtherException e \<Rightarrow> Inl (Propagated e)
      | Response status_code body \<Rightarrow>
          if \<not> is_success status_code
          then Inl (RuntimeError (''Workflow execution failed: '' @ body))
          else
            (case parse_ndjson_stream loads body of
               Inl e \<Rightarrow> Inl e
             | Inr result_data \<Rightarrow>
                 (case validate result_data of
                    None \<Rightarrow> Inl ValidationError
                  | Some r \<Rightarrow> Inr r)))"

definition health_check :: "(string \<Rightarrow> http_outcome) \<Rightarrow> string \<Rightarrow> error + bool" where
  \<comment> \<open>\<open>try: ... return response.status_code == 200  except: return False\<close>\<close>
  "health_check get base_url =
     (case get (base_url @ ''/health'') of
        Response status_code body \<Rightarrow> Inr (status_code = 200)
      | RequestError e \<Rightarrow> Inr False
      | OtherException e \<Rightarrow> Inr False)"

section \<open>The metrics: \<open>MetricsCalculator\<close>\<close>

subsection \<open>Regular expressions of the module\<close>

definition is_word :: "char \<Rightarrow> bool" where
  \<comment> \<open>\<open>\w\<close> on a str: alphanumeric (\<open>str.isalnum\<close>) or the underscore\<close>
  "is_word c =
     (let n = (of_char c :: nat)
      in (48 \<le> n \<and> n \<le> 57) \<or> (65 \<le> n \<and> n \<le> 90) \<or> n = 95 \<or> (97 \<le> n \<and> n \<le> 122) \<or>
         n = 170 \<or> n = 178 \<or> n = 179 \<or> n = 181 \<or> n = 185 \<or> n = 186 \<or>
         (188 \<le> n \<and> n \<le> 190) \<or> (192 \<le> n \<and> n \<le> 214) \<or> (216 \<le> n \<and> n \<le> 246) \<or>
         248 \<le> n)"

definition lower_char :: "char \<Rightarrow> char" where
  "lower_char c =
     (let n = (of_char c :: nat)
      in if (65 \<le> n \<and> n \<le> 90) \<or> (192 \<le> n \<and> n \<le> 214) \<or> (216 \<le> n \<and> n \<le> 222)
         then char_of (n + 32) else c)"

definition lower :: "string \<Rightarrow> string" where
  \<comment> \<open>\<open>s.lower()\<close>\<close>
  "lower s = map lower_char s"

function findall_w :: "string \<Rightarrow> string list" where
  \<comment> \<open>\<open>re.findall(r'\w+', s)\<close>: the maximal runs of word characters, left to right\<close>
  "findall_w [] = []"
| "findall_w (c # cs) =
     (if is_word c then (c # takeWhile is_word cs) # findall_w (dropWhile is_word cs)
      else findall_w cs)"
  by pat_completeness auto
termination
  by (relation "measure length") (auto simp: length_dropWhile_le less_Suc_eq_le)

datatype pattern =
    Bracketed                      \<comment> \<open>\<open>\[.*?\]\<close>\<close>
  | Literal string                 \<comment> \<open>a word without special characters\<close>
  | Alternative pattern pattern    \<comment> \<open>\<open>p|q\<close>\<close>

fun lazy_span :: "string \<Rightarrow> nat option" where
  \<comment> \<open>\<open>.*?\]\<close>: the dot takes any character but the newline, as few as possible; the
      length up to and with the first closing bracket\<close>
  "lazy_span [] = None"
| "lazy_span (c # cs) =
     (if c = CHR '']'' then Some 1
      else if c = CHR 0x0A then None
      else map_option Suc (lazy_span cs))"

fun match_at :: "pattern \<Rightarrow> string \<Rightarrow> nat option" where
  \<comment> \<open>the length of the match that starts at the head of the text\<close>
  "match_at Bracketed s =
     (case s of [] \<Rightarrow> None
      | c # cs \<Rightarrow> if c = CHR ''['' then map_option Suc (lazy_span cs) else None)"
| "match_at (Literal l) s = (if take (length l) s = l then Some (length l) else None)"
| "match_at (Alternative p q) s =
     (case match_at p s of Some n \<Rightarrow> Some n | None \<Rightarrow> match_at q s)"

function findall :: "pattern \<Rightarrow> string \<Rightarrow> string list" where
  \<comment> \<open>\<open>re.findall(p, s)\<close>: the matches found scanning left to right, each search
      starting where the last match ended\<close>
  "findall p [] = (case match_at p [] of None \<Rightarrow> [] | Some n \<Rightarrow> [[]])"
| "findall p (c # cs) =
     (case match_at p (c # cs) of
        None \<Rightarrow> findall p cs
      | Some n \<Rightarrow> take n (c # cs) # findall p (drop (n - 1) cs))"
  by pat_completeness auto
termination
  by (relation "measure (\<lambda>(p, s). length s)") auto

fun search :: "pattern \<Rightarrow> string \<Rightarrow> bool" where
  \<comment> \<open>\<open>bool(re.search(p, s))\<close>\<close>
  "search p [] = (match_at p [] \<noteq> None)"
| "search p (c # cs) = (match_at p (c # cs) \<noteq> None \<or> search p cs)"

definition is_punct :: "char \<Rightarrow> bool" where
  "is_punct c = (c = CHR ''.'' \<or> c = CHR ''!'' \<or> c = CHR ''?'')"

function split_sentences :: "string \<Rightarrow> string list" where
  \<comment> \<open>\<open>re.split(r'[.!?]+', s)\<close>\<close>
  "split_sentences [] = [[]]"
| "split_sentences (c # cs) =
     (if is_punct c then [] # split_sentences (dropWhile is_punct cs)
      else (case split_sentences cs of [] \<Rightarrow> [[c]] | l # ls \<Rightarrow> (c # l) # ls))"
  by pat_completeness auto
termination
  by (relation "measure length") (auto simp: length_dropWhile_le less_Suc_eq_le)

definition claim_words :: "string list" where
  "claim_words =
     [''er'', ''var'', ''har'', ''havde'', ''blev'', ''bliver'', ''kan'', ''skal'', ''vil'']"

definition boundary :: "char option \<Rightarrow> char option \<Rightarrow> bool" where
  \<comment> \<open>\<open>\b\<close> between two neighbouring characters; no character at an end of the text\<close>
  "boundary a b =
     ((case a of None \<Rightarrow> False | Some x \<Rightarrow> is_word x) \<noteq>
      (case b of None \<Rightarrow> False | Some y \<Rightarrow> is_word y))"

definition first_char :: "string \<Rightarrow> char option" where
  "first_char s = (case s of [] \<Rightarrow> None | c # _ \<Rightarrow> Some c)"

definition claim_at :: "char option \<Rightarrow> string \<Rightarrow> bool" where
  \<comment> \<open>\<open>\b(er|var|har|havde|blev|bliver|kan|skal|vil)\b\<close> at the head of the text, which
      follows the character \<open>prev\<close>\<close>
  "claim_at prev s =
     (boundary prev (first_char s) \<and>
      list_ex (\<lambda>w. take (length w) s = w \<and>
                   boundary (Some (last w)) (first_char (drop (length w) s)))
        claim_words)"

fun search_claim :: "char option \<Rightarrow> string \<Rightarrow> bool" where
  "search_claim prev [] = claim_at prev []"
| "search_claim prev (c # cs) = (claim_at prev (c # cs) \<or> search_claim (Some c) cs)"

subsection \<open>The metric records\<close>

record RetrievalMetrics =
  num_sources :: nat
  avg_source_length :: rat
  source_diversity :: rat

record AnswerMetrics =
  answer_length :: nat
  citation_count :: nat
  answer_source_overlap :: rat

record FaithfulnessMetrics =
  has_citations :: bool
  claims_count :: nat

text \<open>
  A source record: the dict that \<open>Source.model_dump()\<close> gives, its fields as text.
  Python's \<open>/\<close> on two ints is the quotient rounded to a double; the metrics are the
  exact quotients here.
\<close>

type_synonym source = "(string \<times> string) list"

definition get_title :: "source \<Rightarrow> string" where
  \<comment> \<open>\<open>s.get('title', '')\<close>\<close>
  "get_title s = (case map_of s ''title'' of None \<Rightarrow> [] | Some t \<Rightarrow> t)"

fun join_sp :: "string list \<Rightarrow> string" where
  \<comment> \<open>\<open>' '.join(titles)\<close>\<close>
  "join_sp [] = []"
| "join_sp [t] = t"
| "join_sp (t # t' # ts) = t @ CHR '' '' # join_sp (t' # ts)"

subsection \<open>\<open>calculate_retrieval_metrics\<close>\<close>

definition calculate_retrieval_metrics :: "source list \<Rightarrow> RetrievalMetrics" where
  "calculate_retrieval_metrics srcs =
     (if srcs = [] then
        \<lparr>num_sources = 0, avg_source_length = 0, source_diversity = 0\<rparr>
      else
        (let avg_length =
               of_nat (sum_list (map (\<lambda>s. length (get_title s)) srcs)) / of_nat (length srcs);
             all_titles = lower (join_sp (map get_title srcs));
             words = findall_w all_titles;
             unique_words = set words;
             diversity =
               (if words \<noteq> [] then of_nat (card unique_words) / of_nat (length words) else 0)
         in \<lparr>num_sources = length srcs, avg_source_length = avg_length,
             source_diversity = diversity\<rparr>))"

subsection \<open>\<open>calculate_answer_metrics\<close>\<close>

definition ifoelge :: string where
  \<comment> \<open>the Danish marker, its third letter the o-slash\<close>
  "ifoelge = ''if'' @ [CHR 0xF8] @ ''lge''"

definition citation_patterns :: "pattern list" where
  "citation_patterns = [Bracketed, Literal ifoelge, Literal ''artikel'', Literal ''kilde'']"

fun title_words :: "source list \<Rightarrow> string set \<Rightarrow> string set" where
  \<comment> \<open>\<open>for source in sources: source_words.update(title_words)\<close>\<close>
  "title_words [] source_words = source_words"
| "title_words (src # rest) source_words =
     title_words rest (source_words \<union> set (findall_w (lower (get_title src))))"

definition calculate_answer_metrics :: "string \<Rightarrow> source list \<Rightarrow> AnswerMetrics" where
  "calculate_answer_metrics response srcs =
     (let count = sum_list (map (\<lambda>p. length (findall p (lower response))) citation_patterns);
          response_words = set (findall_w (lower response));
          source_words = title_words srcs {};
          overlap =
            (if response_words \<noteq> {} \<and> source_words \<noteq> {}
             then of_nat (card (response_words \<inter> source_words)) / of_nat (card response_words)
             else 0)
      in \<lparr>answer_length = length response, citation_count = count,
          answer_source_overlap = overlap\<rparr>)"

subsection \<open>\<open>calculate_faithfulness_metrics\<close>\<close>

definition citation_pattern :: pattern where
  \<comment> \<open>\<open>\[.*?\]|if..lge|artikel|kilde\<close>\<close>
  "citation_pattern =
     Alternative Bracketed
       (Alternative (Literal ifoelge) (Alternative (Literal ''artikel'') (Literal ''kilde'')))"

definition calculate_faithfulness_metrics :: "string \<Rightarrow> source list \<Rightarrow> FaithfulnessMetrics" where
  "calculate_faithfulness_metrics response srcs =
     (let sentences = split_sentences response
      in \<lparr>has_citations = search citation_pattern (lower response),
          claims_count = length (filter (\<lambda>sent. search_claim None (lower sent)) sentences)\<rparr>)"

subsection \<open>\<open>evaluate_response\<close> and the ranking of \<open>compare_workflows_on_query\<close>\<close>

record EvaluationResult =
  query :: string
  workflow_id :: string
  retrieval :: RetrievalMetrics
  answer :: AnswerMetrics
  faithfulness :: FaithfulnessMetrics
  response :: string
  sources :: "source list"

definition evaluate_response :: "string \<Rightarrow> string \<Rightarrow> string \<Rightarrow> source list \<Rightarrow> EvaluationResult" where
  "evaluate_response q wid resp srcs =
     \<lparr>query = q, workflow_id = wid,
      retrieval = calculate_retrieval_metrics srcs,
      answer = calculate_answer_metrics resp srcs,
      faithfulness = calculate_faithfulness_metrics resp srcs,
      response = resp, sources = srcs\<rparr>"

definition composite_score :: "EvaluationResult \<Rightarrow> rat" where
  "composite_score result =
     of_nat (num_sources (retrieval result)) * 0.2 +
     source_diversity (retrieval result) * 0.2 +
     of_nat (citation_count (answer result)) * 0.3 +
     answer_source_overlap (answer result) * 0.3"

text \<open>
  The ranking orders the pairs by the scores that Python computes in doubles. Which
  pairs tie depends on the rounding, so the sort is modelled for any score function
  into any linear order, and \<open>composite_score\<close> is the score in exact arithmetic.
\<close>

definition sort_reverse :: "('a \<times> 'k::linorder) list \<Rightarrow> ('a \<times> 'k) list" where
  \<comment> \<open>\<open>ranked.sort(key=lambda x: x[1], reverse=True)\<close>: the list is reversed, sorted
      by the stable ascending sort, and reversed again\<close>
  "sort_reverse xs = rev (sort_key snd (rev xs))"

definition ranked_by ::
  "(EvaluationResult \<Rightarrow> 'k::linorder) \<Rightarrow> EvaluationResult list \<Rightarrow> (string \<times> 'k) list" where
  \<comment> \<open>the block that builds and sorts \<open>ranked\<close>, run when there are two results or more\<close>
  "ranked_by score results =
     sort_reverse (map (\<lambda>result. (workflow_id result, score result)) results)"

definition ranking :: "EvaluationResult list \<Rightarrow> (string \<times> rat) list" where
  "ranking results = ranked_by composite_score results"

section \<open>Notions used to state the properties\<close>

definition decoded :: "(string \<Rightarrow> json option) \<Rightarrow> string list \<Rightarrow> json list" where
  \<comment> \<open>the non-empty lines that decode, decoded, in order\<close>
  "decoded loads ls = List.map_filter loads (filter (\<lambda>l. l \<noteq> []) ls)"

definition events :: "(string \<Rightarrow> json option) \<Rightarrow> string \<Rightarrow> json list" where
  \<comment> \<open>the events of a body, in arrival order\<close>
  "events loads body = decoded loads (split_nl (strip body))"

definition has_tag :: "string \<Rightarrow> json \<Rightarrow> bool" where
  "has_tag t ev = (case ev of JObj d \<Rightarrow> dict_get d ''event'' JNull = JStr t | _ \<Rightarrow> False)"

definition payload :: "json \<Rightarrow> json \<Rightarrow> json" where
  \<comment> \<open>the \<open>data\<close> of an event, \<open>dflt\<close> when it has none\<close>
  "payload dflt ev = (case ev of JObj d \<Rightarrow> dict_get d ''data'' dflt | _ \<Rightarrow> dflt)"

definition history_payload :: "json \<Rightarrow> json" where
  \<comment> \<open>\<open>data.conversation_history\<close> of a \<open>stream_end\<close> event\<close>
  "history_payload ev =
     (case payload (JObj []) ev of
        JObj dd \<Rightarrow> dict_get dd ''conversation_history'' (JArr [])
      | _ \<Rightarrow> JArr [])"

definition last_or :: "'a \<Rightarrow> 'a list \<Rightarrow> 'a" where
  "last_or dflt xs = (case xs of [] \<Rightarrow> dflt | _ # _ \<Rightarrow> last xs)"

definition recognized_tags :: "string list" where
  "recognized_tags = [''stream_start'', ''sources'', ''text_chunk'', ''stream_end'']"

definition unknown_event_line :: "(string \<Rightarrow> json option) \<Rightarrow> string \<Rightarrow> bool" where
  \<comment> \<open>a line that decodes to an object whose tag is none of the recognized ones\<close>
  "unknown_event_line loads l =
     (case loads l of
        Some (JObj d) \<Rightarrow> \<not> list_ex (\<lambda>t. dict_get d ''event'' JNull = JStr t) recognized_tags
      | _ \<Rightarrow> False)"

definition is_str :: "json \<Rightarrow> bool" where
  "is_str j = (case j of JStr _ \<Rightarrow> True | _ \<Rightarrow> False)"

definition is_obj :: "json \<Rightarrow> bool" where
  "is_obj j = (case j of JObj _ \<Rightarrow> True | _ \<Rightarrow> False)"

definition well_formed :: "json \<Rightarrow> bool" where
  \<comment> \<open>an event the loop and the final join accept: an object; the data of a text chunk,
      when present, a string; the data of a stream end, when present, an object\<close>
  "well_formed ev =
     (is_obj ev \<and>
      (if has_tag ''text_chunk'' ev then is_str (payload (JStr []) ev)
       else if has_tag ''stream_end'' ev then is_obj (payload (JObj []) ev)
       else True))"

definition well_formed_line :: "(string \<Rightarrow> json option) \<Rightarrow> string \<Rightarrow> bool" where
  "well_formed_line loads l =
     (l = [] \<or> (case loads l of None \<Rightarrow> False | Some ev \<Rightarrow> well_formed ev))"

text \<open>
  What stripping does to the non-empty lines of a text: the leading lines of whitespace
  go, and the first line left loses its leading whitespace.
\<close>

fun lstrip_lines :: "string list \<Rightarrow> string list" where
  "lstrip_lines [] = []"
| "lstrip_lines (l # ls) =
     (if dropWhile isspace l = [] then lstrip_lines ls else dropWhile isspace l # ls)"

section \<open>Lines of a body\<close>

lemma split_nl_nonempty: "split_nl s \<noteq> []"
  by (induction s) (auto split: list.splits)

lemma split_nl_append: "split_nl (a @ CHR 0x0A # b) = split_nl a @ split_nl b"
  by (induction a) (auto split: list.splits simp: split_nl_nonempty)

lemma split_nl_snoc:
  "split_nl (s @ [c]) =
     (if c = CHR 0x0A then split_nl s @ [[]]
      else butlast (split_nl s) @ [last (split_nl s) @ [c]])"
  by (induction s) (auto split: list.splits simp: split_nl_nonempty)

lemma split_nl_rev: "split_nl (rev s) = rev (map rev (split_nl s))"
proof (induction s)
  case Nil
  show ?case by simp
next
  case (Cons c s)
  obtain l ls where sp: "split_nl s = l # ls"
    using split_nl_nonempty by (cases "split_nl s") auto
  show ?case
  proof (cases "c = CHR 0x0A")
    case True
    then show ?thesis using Cons by (simp add: split_nl_snoc)
  next
    case False
    then show ?thesis using Cons sp by (simp add: split_nl_snoc)
  qed
qed

lemma join_split: "join_nl (split_nl s) = s"
proof (induction s)
  case Nil
  show ?case by simp
next
  case (Cons c s)
  obtain l ls where sp: "split_nl s = l # ls"
    using split_nl_nonempty by (cases "split_nl s") auto
  show ?case using Cons sp by (cases ls) auto
qed

lemma nonblank_split_join:
  "filter (\<lambda>l. l \<noteq> []) (split_nl (join_nl ls)) =
   concat (map (\<lambda>l. filter (\<lambda>l. l \<noteq> []) (split_nl l)) ls)"
  by (induction ls rule: join_nl.induct) (simp_all add: split_nl_append)

lemma nonblank_join_filter:
  "filter (\<lambda>l. l \<noteq> []) (split_nl (join_nl (filter (\<lambda>l. l \<noteq> []) ls))) =
   filter (\<lambda>l. l \<noteq> []) (split_nl (join_nl ls))"
  unfolding nonblank_split_join by (induction ls) auto

lemma newline_isspace: "isspace (CHR 0x0A)"
  by (simp add: isspace_def)

lemma nonblank_lstrip:
  "filter (\<lambda>l. l \<noteq> []) (split_nl (dropWhile isspace s)) =
   lstrip_lines (filter (\<lambda>l. l \<noteq> []) (split_nl s))"
proof (induction s)
  case Nil
  show ?case by simp
next
  case (Cons c s)
  obtain l ls where sp: "split_nl s = l # ls"
    using split_nl_nonempty by (cases "split_nl s") auto
  show ?case
  proof (cases "c = CHR 0x0A")
    case True
    then show ?thesis using Cons newline_isspace by simp
  next
    case False
    show ?thesis
    proof (cases "isspace c")
      case True
      then show ?thesis using False Cons sp by (cases "l = []") auto
    next
      case nsp: False
      then show ?thesis using False sp by simp
    qed
  qed
qed

lemma nonblank_rev:
  "filter (\<lambda>l. l \<noteq> []) (split_nl (rev s)) =
   rev (map rev (filter (\<lambda>l. l \<noteq> []) (split_nl s)))"
proof -
  have "filter (\<lambda>l. l \<noteq> []) (rev (map rev xs)) = rev (map rev (filter (\<lambda>l. l \<noteq> []) xs))"
    for xs :: "string list"
    by (induction xs) auto
  then show ?thesis by (simp add: split_nl_rev)
qed

lemma nonblank_strip:
  "filter (\<lambda>l. l \<noteq> []) (split_nl (strip s)) =
   rev (map rev (lstrip_lines (rev (map rev (lstrip_lines
     (filter (\<lambda>l. l \<noteq> []) (split_nl s)))))))"
  unfolding strip_def by (simp only: nonblank_rev nonblank_lstrip)

section \<open>The loop over the lines\<close>

lemma parse_lines_skip_blank:
  "parse_lines loads (filter (\<lambda>l. l \<noteq> []) ls) v = parse_lines loads ls v"
  by (induction ls arbitrary: v) (auto split: option.splits sum.splits)

lemma fold_lines_skip_blank:
  "fold_lines loads (filter (\<lambda>l. l \<noteq> []) ls) = fold_lines loads ls"
  by (simp add: fold_lines_def parse_lines_skip_blank)

lemma handle_event_unknown:
  "\<not> list_ex (\<lambda>t. dict_get d ''event'' JNull = JStr t) recognized_tags \<Longrightarrow>
   handle_event (JObj d) v = Inr v"
  by (simp add: handle_event_def recognized_tags_def Let_def)

lemma parse_lines_skip_unknown:
  "parse_lines loads (filter (\<lambda>l. \<not> unknown_event_line loads l) ls) v = parse_lines loads ls v"
proof (induction ls arbitrary: v)
  case Nil
  show ?case by simp
next
  case (Cons l ls)
  show ?case
  proof (cases "unknown_event_line loads l")
    case True
    then obtain d where d: "loads l = Some (JObj d)"
      and u: "\<not> list_ex (\<lambda>t. dict_get d ''event'' JNull = JStr t) recognized_tags"
      by (auto simp: unknown_event_line_def split: option.splits json.splits)
    have "l \<noteq> [] \<Longrightarrow> parse_lines loads (l # ls) v = parse_lines loads ls v"
      using d handle_event_unknown[OF u] by simp
    moreover have "l = [] \<Longrightarrow> parse_lines loads (l # ls) v = parse_lines loads ls v"
      by simp
    ultimately show ?thesis using True Cons.IH by auto
  next
    case False
    then show ?thesis using Cons.IH by (simp split: option.splits sum.splits)
  qed
qed

lemma handle_event_errors: "handle_event ev v = Inl e \<Longrightarrow> e = AttributeError"
  by (auto simp: handle_event_def Let_def split: json.splits if_splits)

lemma parse_lines_errors:
  "parse_lines loads ls v = Inl e \<Longrightarrow> e = JSONDecodeError \<or> e = AttributeError"
  by (induction ls arbitrary: v)
     (auto split: option.splits sum.splits if_splits dest: handle_event_errors)

lemma join_chunks_errors: "join_chunks cs = Inl e \<Longrightarrow> e = TypeError"
  by (induction cs rule: join_chunks.induct) (auto split: sum.splits)

lemma fold_lines_errors:
  "fold_lines loads ls = Inl e \<Longrightarrow> e = JSONDecodeError \<or> e = AttributeError \<or> e = TypeError"
  by (auto simp: fold_lines_def split: sum.splits
           dest: parse_lines_errors join_chunks_errors)

lemma parse_lines_undecodable:
  "l \<in> set ls \<Longrightarrow> l \<noteq> [] \<Longrightarrow> loads l = None \<Longrightarrow> \<exists>e. parse_lines loads ls v = Inl e"
  by (induction ls arbitrary: v) (auto split: option.splits sum.splits)

lemma last_or_Nil: "last_or dflt [] = dflt"
  by (simp add: last_or_def)

lemma last_or_Cons: "last_or dflt (x # xs) = last_or x xs"
  by (cases xs) (simp_all add: last_or_def)

lemma handle_event_effect:
  assumes "handle_event ev v = Inr v1"
  shows "response_chunks v1 =
           response_chunks v @ (if has_tag ''text_chunk'' ev then [payload (JStr []) ev] else [])"
    and "stream_vars.sources v1 =
           (if has_tag ''sources'' ev then payload (JArr []) ev else stream_vars.sources v)"
    and "conversation_history v1 =
           (if has_tag ''stream_end'' ev then history_payload ev else conversation_history v)"
  using assms
  by (auto simp: handle_event_def has_tag_def payload_def history_payload_def Let_def
           split: json.splits if_splits)

lemma handle_event_returns:
  "(\<exists>v1. handle_event ev v = Inr v1) \<longleftrightarrow>
   (is_obj ev \<and> (has_tag ''stream_end'' ev \<longrightarrow> is_obj (payload (JObj []) ev)))"
  by (auto simp: handle_event_def has_tag_def payload_def is_obj_def Let_def
           split: json.splits if_splits)

lemma decoded_simps:
  "decoded loads [] = []"
  "decoded loads (l # ls) =
     (if l = [] then decoded loads ls
      else (case loads l of None \<Rightarrow> decoded loads ls | Some ev \<Rightarrow> ev # decoded loads ls))"
  by (simp_all add: decoded_def map_filter_simps split: option.splits)

lemma decoded_mem:
  "ev \<in> set (decoded loads ls) \<longleftrightarrow> (\<exists>l \<in> set ls. l \<noteq> [] \<and> loads l = Some ev)"
  by (induction ls) (auto simp: decoded_simps split: option.splits)

lemma parse_lines_track:
  "parse_lines loads ls v = Inr v' \<Longrightarrow>
     response_chunks v' =
       response_chunks v @
         map (payload (JStr [])) (filter (has_tag ''text_chunk'') (decoded loads ls)) \<and>
     stream_vars.sources v' =
       last_or (stream_vars.sources v)
         (map (payload (JArr [])) (filter (has_tag ''sources'') (decoded loads ls))) \<and>
     conversation_history v' =
       last_or (conversation_history v)
         (map history_payload (filter (has_tag ''stream_end'') (decoded loads ls)))"
proof (induction ls arbitrary: v)
  case Nil
  then show ?case by (simp add: decoded_simps last_or_Nil)
next
  case (Cons l ls)
  show ?case
  proof (cases "l = []")
    case True
    then show ?thesis using Cons by (simp add: decoded_simps)
  next
    case False
    from Cons.prems False obtain ev v1 where ev: "loads l = Some ev"
      and h: "handle_event ev v = Inr v1" and rest: "parse_lines loads ls v1 = Inr v'"
      by (auto split: option.splits sum.splits)
    note ih = Cons.IH[OF rest]
    note eff = handle_event_effect[OF h]
    have d: "decoded loads (l # ls) = ev # decoded loads ls"
      using False ev by (simp add: decoded_simps)
    show ?thesis
      unfolding d using ih eff by (simp add: last_or_Cons)
  qed
qed

lemma parse_lines_returns:
  "(\<exists>v'. parse_lines loads ls v = Inr v') \<longleftrightarrow>
   list_all (\<lambda>l. l = [] \<or> (\<exists>ev. loads l = Some ev \<and> is_obj ev \<and>
      (has_tag ''stream_end'' ev \<longrightarrow> is_obj (payload (JObj []) ev)))) ls"
proof (induction ls arbitrary: v)
  case Nil
  show ?case by simp
next
  case (Cons l ls)
  show ?case
  proof (cases "l = []")
    case True
    then show ?thesis using Cons.IH by simp
  next
    case False
    show ?thesis
    proof (cases "loads l")
      case None
      then show ?thesis using False by simp
    next
      case (Some ev)
      show ?thesis
      proof (cases "handle_event ev v")
        case (Inl e)
        then have "\<not> (\<exists>v1. handle_event ev v = Inr v1)" by simp
        then have "\<not> (is_obj ev \<and> (has_tag ''stream_end'' ev \<longrightarrow> is_obj (payload (JObj []) ev)))"
          unfolding handle_event_returns .
        then show ?thesis using False Some Inl by auto
      next
        case (Inr v1)
        then have "\<exists>v1. handle_event ev v = Inr v1" by blast
        then have "is_obj ev \<and> (has_tag ''stream_end'' ev \<longrightarrow> is_obj (payload (JObj []) ev))"
          unfolding handle_event_returns .
        then show ?thesis using False Some Inr Cons.IH[of v1] by simp
      qed
    qed
  qed
qed

lemma join_chunks_strings:
  "join_chunks cs = Inr t \<Longrightarrow> \<exists>fs. cs = map JStr fs \<and> t = concat fs"
proof (induction cs arbitrary: t rule: join_chunks.induct)
  case 1
  then show ?case by simp
next
  case (2 s cs)
  then obtain t' where t': "join_chunks cs = Inr t'" and t: "t = s @ t'"
    by (auto split: sum.splits)
  from "2.IH"[OF t'] obtain fs where "cs = map JStr fs" "t' = concat fs" by blast
  then have "JStr s # cs = map JStr (s # fs) \<and> t = concat (s # fs)" using t by simp
  then show ?case by (rule exI[where x = "s # fs"])
qed simp_all

lemma join_chunks_returns: "(\<exists>t. join_chunks cs = Inr t) \<longleftrightarrow> list_all is_str cs"
  by (induction cs rule: join_chunks.induct) (auto simp: is_str_def split: sum.splits)

lemma fold_lines_fields:
  assumes "fold_lines loads ls = Inr r"
  shows "\<exists>fs. map (payload (JStr [])) (filter (has_tag ''text_chunk'') (decoded loads ls)) =
                 map JStr fs \<and>
               dict_get r ''response'' JNull = JStr (concat fs)"
    and "dict_get r ''sources'' JNull =
           last_or (JArr [])
             (map (payload (JArr [])) (filter (has_tag ''sources'') (decoded loads ls)))"
    and "dict_get r ''conversation_history'' JNull =
           last_or (JArr [])
             (map history_payload (filter (has_tag ''stream_end'') (decoded loads ls)))"
proof -
  from assms obtain v t where p: "parse_lines loads ls initial_vars = Inr v"
    and j: "join_chunks (response_chunks v) = Inr t"
    and r: "r = [(''conversation_id'', conversation_id v), (''run_id'', run_id v),
                 (''response'', JStr t), (''sources'', stream_vars.sources v),
                 (''conversation_history'', conversation_history v)]"
    by (auto simp: fold_lines_def split: sum.splits)
  note tr = parse_lines_track[OF p]
  from join_chunks_strings[OF j] obtain fs
    where fs: "response_chunks v = map JStr fs" "t = concat fs"
    by blast
  have "map (payload (JStr [])) (filter (has_tag ''text_chunk'') (decoded loads ls)) = map JStr fs"
    using tr fs by (simp add: initial_vars_def)
  moreover have "dict_get r ''response'' JNull = JStr (concat fs)"
    using r fs by (simp add: dict_get_def)
  ultimately show
    "\<exists>fs. map (payload (JStr [])) (filter (has_tag ''text_chunk'') (decoded loads ls)) =
             map JStr fs \<and>
           dict_get r ''response'' JNull = JStr (concat fs)"
    by blast
  show "dict_get r ''sources'' JNull =
          last_or (JArr [])
            (map (payload (JArr [])) (filter (has_tag ''sources'') (decoded loads ls)))"
    using tr r by (simp add: dict_get_def initial_vars_def)
  show "dict_get r ''conversation_history'' JNull =
          last_or (JArr [])
            (map history_payload (filter (has_tag ''stream_end'') (decoded loads ls)))"
    using tr r by (simp add: dict_get_def initial_vars_def)
qed

lemma fold_lines_returns:
  "(\<exists>r. fold_lines loads ls = Inr r) \<longleftrightarrow> list_all (well_formed_line loads) ls"
proof
  assume "\<exists>r. fold_lines loads ls = Inr r"
  then obtain r v t where p: "parse_lines loads ls initial_vars = Inr v"
    and j: "join_chunks (response_chunks v) = Inr t"
    by (auto simp: fold_lines_def split: sum.splits)
  from p have ok: "list_all (\<lambda>l. l = [] \<or> (\<exists>ev. loads l = Some ev \<and> is_obj ev \<and>
      (has_tag ''stream_end'' ev \<longrightarrow> is_obj (payload (JObj []) ev)))) ls"
    using parse_lines_returns[of loads ls initial_vars] by blast
  from j have "list_all is_str (response_chunks v)"
    using join_chunks_returns[of "response_chunks v"] by blast
  then have strs: "list_all is_str
      (map (payload (JStr [])) (filter (has_tag ''text_chunk'') (decoded loads ls)))"
    using parse_lines_track[OF p] by (simp add: initial_vars_def)
  show "list_all (well_formed_line loads) ls"
    unfolding list_all_iff
  proof
    fix l assume l: "l \<in> set ls"
    show "well_formed_line loads l"
    proof (cases "l = []")
      case True
      then show ?thesis by (simp add: well_formed_line_def)
    next
      case False
      with ok l obtain ev where ev: "loads l = Some ev" "is_obj ev"
        "has_tag ''stream_end'' ev \<longrightarrow> is_obj (payload (JObj []) ev)"
        by (auto simp: list_all_iff)
      have "ev \<in> set (decoded loads ls)" using l False ev(1) decoded_mem by blast
      then have "has_tag ''text_chunk'' ev \<longrightarrow> is_str (payload (JStr []) ev)"
        using strs by (auto simp: list_all_iff)
      then show ?thesis using ev by (simp add: well_formed_line_def well_formed_def)
    qed
  qed
next
  assume wf: "list_all (well_formed_line loads) ls"
  have tags: "\<not> (has_tag ''text_chunk'' ev \<and> has_tag ''stream_end'' ev)" for ev
    by (auto simp: has_tag_def split: json.splits)
  have "list_all (\<lambda>l. l = [] \<or> (\<exists>ev. loads l = Some ev \<and> is_obj ev \<and>
      (has_tag ''stream_end'' ev \<longrightarrow> is_obj (payload (JObj []) ev)))) ls"
    using wf tags unfolding list_all_iff well_formed_line_def well_formed_def
    by (fastforce split: option.splits if_splits)
  then obtain v where p: "parse_lines loads ls initial_vars = Inr v"
    using parse_lines_returns[of loads ls initial_vars] by blast
  have "list_all is_str
      (map (payload (JStr [])) (filter (has_tag ''text_chunk'') (decoded loads ls)))"
    using wf unfolding list_all_iff well_formed_line_def well_formed_def
    by (auto simp: decoded_mem split: option.splits if_splits)
  then have "list_all is_str (response_chunks v)"
    using parse_lines_track[OF p] by (simp add: initial_vars_def)
  then obtain t where "join_chunks (response_chunks v) = Inr t"
    using join_chunks_returns[of "response_chunks v"] by blast
  then show "\<exists>r. fold_lines loads ls = Inr r" using p by (simp add: fold_lines_def)
qed

section \<open>Word tokens, citation markers, the stable sort\<close>

lemma takeWhile_before_stop: "\<not> P c \<Longrightarrow> takeWhile P (xs @ c # ys) = takeWhile P xs"
  by (induction xs) auto

lemma dropWhile_before_stop: "\<not> P c \<Longrightarrow> dropWhile P (xs @ c # ys) = dropWhile P xs @ c # ys"
  by (induction xs) auto

lemma findall_w_separator:
  "\<not> is_word c \<Longrightarrow> findall_w (a @ c # b) = findall_w a @ findall_w b"
proof (induction a rule: findall_w.induct)
  case 1
  then show ?case by simp
next
  case (2 x xs)
  then show ?case
    by (simp add: takeWhile_before_stop dropWhile_before_stop)
qed

lemma space_not_word: "\<not> is_word (CHR '' '')"
  by (simp add: is_word_def)

lemma lower_space: "lower_char (CHR '' '') = CHR '' ''"
  by (simp add: lower_char_def)

lemma findall_w_join_sp:
  "findall_w (lower (join_sp ts)) = concat (map (\<lambda>t. findall_w (lower t)) ts)"
proof (induction ts rule: join_sp.induct)
  case 1
  show ?case by (simp add: lower_def)
next
  case (2 t)
  show ?case by simp
next
  case (3 t t' ts)
  have "lower (join_sp (t # t' # ts)) = lower t @ CHR '' '' # lower (join_sp (t' # ts))"
    by (simp add: lower_def lower_space)
  then show ?case using 3 by (simp add: findall_w_separator space_not_word)
qed

lemma title_words_union:
  "title_words srcs acc = acc \<union> (\<Union>s \<in> set srcs. set (findall_w (lower (get_title s))))"
  by (induction srcs arbitrary: acc) auto

lemma findall_search: "findall p s \<noteq> [] \<longleftrightarrow> search p s"
  by (induction p s rule: findall.induct) (auto split: option.splits)

lemma search_alternative: "search (Alternative p q) s \<longleftrightarrow> search p s \<or> search q s"
  by (induction s) (auto split: option.splits)

lemma sort_reverse_props:
  "mset (sort_reverse xs) = mset xs"
  "sorted_wrt (\<lambda>a b. snd b \<le> snd a) (sort_reverse xs)"
  "filter (\<lambda>x. snd x = k) (sort_reverse xs) = filter (\<lambda>x. snd x = k) xs"
proof -
  show "mset (sort_reverse xs) = mset xs" by (simp add: sort_reverse_def)
  have "sorted (map snd (sort_key snd (rev xs)))" by (rule sorted_sort_key)
  then have "sorted_wrt (\<lambda>a b. snd a \<le> snd b) (sort_key snd (rev xs))"
    by (simp add: sorted_map)
  then show "sorted_wrt (\<lambda>a b. snd b \<le> snd a) (sort_reverse xs)"
    by (simp add: sort_reverse_def sorted_wrt_rev)
  have "filter (\<lambda>x. snd x = k) (sort_key snd (rev xs)) = filter (\<lambda>x. snd x = k) (rev xs)"
    by (rule sort_key_stable)
  then show "filter (\<lambda>x. snd x = k) (sort_reverse xs) = filter (\<lambda>x. snd x = k) xs"
    by (simp add: sort_reverse_def rev_filter[symmetric])
qed

section \<open>Properties of the connector\<close>

text \<open>
  Claim C1, as the code has it. An event that decodes to an object whose tag is none of
  \<open>stream_start\<close>, \<open>sources\<close>, \<open>text_chunk\<close>, \<open>stream_end\<close> is ignored: the result of the
  parse is the result of the same loop over the lines of the body with those lines left
  out. A non-empty line that is not valid JSON is not ignored: \<open>json.loads\<close> raises and no
  handler catches it, so the parse ends in JSONDecodeError (or in the AttributeError that
  an earlier line raised).
\<close>

theorem unknown_events_ignored:
  "parse_ndjson_stream loads body =
     fold_lines loads (filter (\<lambda>l. \<not> unknown_event_line loads l) (split_nl (strip body))) \<and>
   (\<forall>l \<in> set (split_nl (strip body)). l \<noteq> [] \<and> loads l = None \<longrightarrow>
      parse_ndjson_stream loads body = Inl JSONDecodeError \<or>
      parse_ndjson_stream loads body = Inl AttributeError)"
proof -
  have a: "parse_ndjson_stream loads body =
     fold_lines loads (filter (\<lambda>l. \<not> unknown_event_line loads l) (split_nl (strip body)))"
    by (simp add: parse_ndjson_stream_def fold_lines_def parse_lines_skip_unknown)
  have b: "parse_ndjson_stream loads body = Inl JSONDecodeError \<or>
           parse_ndjson_stream loads body = Inl AttributeError"
    if "l \<in> set (split_nl (strip body))" "l \<noteq> []" "loads l = None" for l
  proof -
    from parse_lines_undecodable[of l "split_nl (strip body)" loads initial_vars] that obtain e
      where e: "parse_lines loads (split_nl (strip body)) initial_vars = Inl e" by blast
    from parse_lines_errors[OF e] show ?thesis
      using e by (auto simp: parse_ndjson_stream_def fold_lines_def)
  qed
  show ?thesis using a b by blast
qed

text \<open>
  At a body of an unknown event and a text chunk, and at a body whose second line is not
  JSON.
\<close>

theorem unknown_events_ignored_witness:
  \<open>unknown_event_line json_loads ''{"event": "workflow_step", "data": 1}'' \<and>
   parse_ndjson_stream json_loads
     (join_nl [''{"event": "workflow_step", "data": 1}'',
               ''{"event": "text_chunk", "data": "ab"}'']) =
   fold_lines json_loads [''{"event": "text_chunk", "data": "ab"}''] \<and>
   ''{bad'' \<in> set (split_nl (strip (join_nl [''{"event": "workflow_step"}'', ''{bad'']))) \<and>
   json_loads ''{bad'' = None \<and>
   (parse_ndjson_stream json_loads (join_nl [''{"event": "workflow_step"}'', ''{bad'']) =
      Inl JSONDecodeError \<or>
    parse_ndjson_stream json_loads (join_nl [''{"event": "workflow_step"}'', ''{bad'']) =
      Inl AttributeError)\<close>
proof -
  let ?u = \<open>''{"event": "workflow_step", "data": 1}''\<close>
  let ?c = \<open>''{"event": "text_chunk", "data": "ab"}''\<close>
  let ?v = \<open>''{"event": "workflow_step"}''\<close>
  have u: "unknown_event_line json_loads ?u" by code_simp
  have f: "filter (\<lambda>l. \<not> unknown_event_line json_loads l)
             (split_nl (strip (join_nl [?u, ?c]))) = [?c]"
    by code_simp
  have 1: "parse_ndjson_stream json_loads (join_nl [?u, ?c]) = fold_lines json_loads [?c]"
    using unknown_events_ignored[of json_loads "join_nl [?u, ?c]", THEN conjunct1]
    by (simp only: f)
  have m: \<open>''{bad'' \<in> set (split_nl (strip (join_nl [?v, ''{bad''])))\<close> by code_simp
  have n: \<open>json_loads ''{bad'' = None\<close> by code_simp
  have n': \<open>''{bad'' \<noteq> [] \<and> json_loads ''{bad'' = None\<close> using n by simp
  note 2 = unknown_events_ignored[of json_loads \<open>join_nl [?v, ''{bad'']\<close>, THEN conjunct2,
      THEN bspec, OF m, THEN mp, OF n']
  show ?thesis by (intro conjI u 1 m n 2)
qed

text \<open>
  Claim C1 as stated fails: with the line \<open>not json\<close> after a text chunk the parse raises
  JSONDecodeError, while the body without that line parses to the response \<open>ab\<close>.
\<close>

theorem invalid_json_line_raises:
  \<open>parse_ndjson_stream json_loads
     (join_nl [''{"event": "text_chunk", "data": "ab"}'', ''not json'']) = Inl JSONDecodeError \<and>
   parse_ndjson_stream json_loads (join_nl [''{"event": "text_chunk", "data": "ab"}'']) =
     Inr [(''conversation_id'', JStr []), (''run_id'', JStr []), (''response'', JStr ''ab''),
          (''sources'', JArr []), (''conversation_history'', JArr [])]\<close>
  by code_simp

text \<open>
  Claim C6. \<open>health_check\<close> never raises: whatever the request comes to, it returns a
  bool, and the bool is true exactly when the request returned a response with status 200.
\<close>

theorem health_check_never_raises:
  "health_check get base_url =
     Inr (\<exists>body. get (base_url @ ''/health'') = Response 200 body)"
  by (simp add: health_check_def split: http_outcome.split)

text \<open>
  Claim C2, as the code has it. \<open>run_workflow\<close> raises the ConnectionError, whose message
  names the base URL, exactly when the request ends in an \<open>httpx.RequestError\<close>, and the
  RuntimeError with the body of the response exactly when the status is not a success.
  On a success status its outcome is that of parsing the body and validating the
  result: it returns exactly when the body parses and the parsed dict validates, and then
  it returns the validated result; when the parse raises (JSONDecodeError,
  AttributeError or TypeError) that error leaves the function as it is, and when the
  validation fails its ValidationError does. Any other exception of the client leaves
  the function too.
\<close>

theorem run_workflow_outcomes:
  "(let outcome = post (run_url base_url wid) (run_payload user_input conv_id history);
        result = run_workflow post loads validate base_url wid user_input conv_id history
    in ((\<exists>m. result = Inl (ConnectionError m)) \<longleftrightarrow> (\<exists>e. outcome = RequestError e)) \<and>
       ((\<exists>m. result = Inl (RuntimeError m)) \<longleftrightarrow>
          (\<exists>status_code body. outcome = Response status_code body \<and> \<not> is_success status_code)) \<and>
       (case outcome of
          RequestError e \<Rightarrow>
            result = Inl (ConnectionError (''Failed to connect to lex-llm at '' @ base_url @ '': '' @ e))
        | OtherException e \<Rightarrow> result = Inl (Propagated e)
        | Response status_code body \<Rightarrow>
            if is_success status_code then
              result =
                (case parse_ndjson_stream loads body of
                   Inl e \<Rightarrow> Inl e
                 | Inr d \<Rightarrow> (case validate d of None \<Rightarrow> Inl ValidationError | Some r \<Rightarrow> Inr r)) \<and>
              ((\<exists>r. result = Inr r) \<longleftrightarrow>
                 (\<exists>d r. parse_ndjson_stream loads body = Inr d \<and> validate d = Some r)) \<and>
              ((\<exists>e. parse_ndjson_stream loads body = Inl e \<and> result = Inl e \<and>
                    (e = JSONDecodeError \<or> e = AttributeError \<or> e = TypeError)) \<or>
               (\<exists>d. parse_ndjson_stream loads body = Inr d \<and> validate d = None \<and>
                    result = Inl ValidationError) \<or>
               (\<exists>d r. parse_ndjson_stream loads body = Inr d \<and> validate d = Some r \<and>
                    result = Inr r))
            else result = Inl (RuntimeError (''Workflow execution failed: '' @ body))))"
proof (cases "post (run_url base_url wid) (run_payload user_input conv_id history)")
  case (RequestError e)
  then show ?thesis by (simp add: run_workflow_def Let_def)
next
  case (OtherException e)
  then show ?thesis by (simp add: run_workflow_def Let_def)
next
  case (Response status_code body)
  show ?thesis
  proof (cases "is_success status_code")
    case False
    then show ?thesis using Response by (simp add: run_workflow_def Let_def)
  next
    case True
    show ?thesis
    proof (cases "parse_ndjson_stream loads body")
      case (Inl e)
      then have "e = JSONDecodeError \<or> e = AttributeError \<or> e = TypeError"
        unfolding parse_ndjson_stream_def by (rule fold_lines_errors)
      then show ?thesis using Response True Inl by (auto simp: run_workflow_def Let_def)
    next
      case (Inr d)
      then show ?thesis using Response True
        by (cases "validate d") (simp_all add: run_workflow_def Let_def)
    qed
  qed
qed

text \<open>
  Claim C2 as stated fails: the service answers 200 with a body that is not JSON, the
  transport did not fail, and the call raises JSONDecodeError instead of returning.
\<close>

theorem success_status_may_raise:
  \<open>run_workflow (\<lambda>url payload. Response 200 ''not json'') json_loads Some
     ''http://localhost:8001'' ''beta_workflow_v2_hyde'' ''q'' ''c'' None = Inl JSONDecodeError\<close>
  by code_simp

text \<open>
  Claim C3. The parse returns exactly when every non-empty line decodes to a well-formed
  event; and whenever it returns, the data of the \<open>text_chunk\<close> events of the body are
  strings \<open>f1, ..., fN\<close> (the empty string for a chunk without data) and the response is
  their concatenation in arrival order, nothing between them.
\<close>

theorem response_is_concatenation:
  "((\<exists>r. parse_ndjson_stream loads body = Inr r) \<longleftrightarrow>
      list_all (well_formed_line loads) (split_nl (strip body))) \<and>
   (\<forall>r. parse_ndjson_stream loads body = Inr r \<longrightarrow>
      (\<exists>fs. map (payload (JStr [])) (filter (has_tag ''text_chunk'') (events loads body)) =
               map JStr fs \<and>
             dict_get r ''response'' JNull = JStr (concat fs)))"
  unfolding parse_ndjson_stream_def events_def
  using fold_lines_returns[of loads "split_nl (strip body)"] fold_lines_fields(1)[of loads "split_nl (strip body)"]
  by blast

text \<open>At a stream of three chunks with another event between them.\<close>

theorem response_is_concatenation_witness:
  \<open>list_all (well_formed_line json_loads)
     (split_nl (strip (join_nl
        [''{"event": "stream_start", "conversation_id": "c1", "run_id": "r1"}'',
         ''{"event": "text_chunk", "data": "Sne "}'',
         ''{"event": "workflow_step"}'',
         ''{"event": "text_chunk", "data": "er "}'',
         ''{"event": "text_chunk", "data": "hvid."}'']))) \<and>
   (\<exists>r. parse_ndjson_stream json_loads (join_nl
        [''{"event": "stream_start", "conversation_id": "c1", "run_id": "r1"}'',
         ''{"event": "text_chunk", "data": "Sne "}'',
         ''{"event": "workflow_step"}'',
         ''{"event": "text_chunk", "data": "er "}'',
         ''{"event": "text_chunk", "data": "hvid."}'']) = Inr r \<and>
      dict_get r ''response'' JNull = JStr ''Sne er hvid.'')\<close>
proof -
  let ?b = \<open>join_nl
        [''{"event": "stream_start", "conversation_id": "c1", "run_id": "r1"}'',
         ''{"event": "text_chunk", "data": "Sne "}'',
         ''{"event": "workflow_step"}'',
         ''{"event": "text_chunk", "data": "er "}'',
         ''{"event": "text_chunk", "data": "hvid."}'']\<close>
  note t = response_is_concatenation[of json_loads ?b]
  have wf: "list_all (well_formed_line json_loads) (split_nl (strip ?b))" by code_simp
  from t wf obtain r where r: "parse_ndjson_stream json_loads ?b = Inr r" by blast
  from t r obtain fs
    where fs: "map (payload (JStr [])) (filter (has_tag ''text_chunk'') (events json_loads ?b)) =
                 map JStr fs"
      and resp: "dict_get r ''response'' JNull = JStr (concat fs)"
    by blast
  have ev: "map (payload (JStr [])) (filter (has_tag ''text_chunk'') (events json_loads ?b)) =
              map JStr [''Sne '', ''er '', ''hvid.'']"
    by code_simp
  have "map JStr fs = map JStr [''Sne '', ''er '', ''hvid.'']"
    by (rule trans[OF fs[symmetric] ev])
  moreover have "inj JStr" by (simp add: inj_on_def)
  ultimately have "fs = [''Sne '', ''er '', ''hvid.'']"
    by (simp only: inj_map_eq_map)
  then have "dict_get r ''response'' JNull = JStr ''Sne er hvid.''" using resp by simp
  then show ?thesis using wf r by blast
qed

text \<open>
  Claim C4. On a body of well-formed events the parse returns, and its source list is the
  data of the last \<open>sources\<close> event alone, its conversation history the
  \<open>data.conversation_history\<close> of the last \<open>stream_end\<close> event alone (the empty list when
  the last event carries none, or when there is no such event): earlier events of the
  kind leave no trace.
\<close>

theorem last_event_wins:
  assumes "list_all (well_formed_line loads) (split_nl (strip body))"
  shows "\<exists>r. parse_ndjson_stream loads body = Inr r \<and>
           dict_get r ''sources'' JNull =
             last_or (JArr [])
               (map (payload (JArr [])) (filter (has_tag ''sources'') (events loads body))) \<and>
           dict_get r ''conversation_history'' JNull =
             last_or (JArr [])
               (map history_payload (filter (has_tag ''stream_end'') (events loads body)))"
proof -
  from assms obtain r where r: "fold_lines loads (split_nl (strip body)) = Inr r"
    using fold_lines_returns[of loads "split_nl (strip body)"] by blast
  show ?thesis
    unfolding parse_ndjson_stream_def events_def
    using r fold_lines_fields(2,3)[OF r] by simp
qed

text \<open>At a stream of two \<open>sources\<close> and two \<open>stream_end\<close> events.\<close>

theorem last_event_wins_witness:
  \<open>\<exists>r. parse_ndjson_stream json_loads (join_nl
        [''{"event": "sources", "data": [{"id": 1, "title": "Sne", "url": "u1"}]}'',
         ''{"event": "stream_end", "data": {"conversation_history": [1]}}'',
         ''{"event": "sources", "data": [{"id": 2, "title": "Is", "url": "u2"}]}'',
         ''{"event": "stream_end", "data": {"conversation_history": [2]}}'']) = Inr r \<and>
      dict_get r ''sources'' JNull =
        JArr [JObj [(''id'', JInt 2), (''title'', JStr ''Is''), (''url'', JStr ''u2'')]] \<and>
      dict_get r ''conversation_history'' JNull = JArr [JInt 2]\<close>
proof -
  let ?b = \<open>join_nl
        [''{"event": "sources", "data": [{"id": 1, "title": "Sne", "url": "u1"}]}'',
         ''{"event": "stream_end", "data": {"conversation_history": [1]}}'',
         ''{"event": "sources", "data": [{"id": 2, "title": "Is", "url": "u2"}]}'',
         ''{"event": "stream_end", "data": {"conversation_history": [2]}}'']\<close>
  have wf: "list_all (well_formed_line json_loads) (split_nl (strip ?b))" by code_simp
  have s: "last_or (JArr [])
             (map (payload (JArr [])) (filter (has_tag ''sources'') (events json_loads ?b))) =
           JArr [JObj [(''id'', JInt 2), (''title'', JStr ''Is''), (''url'', JStr ''u2'')]]"
    by code_simp
  have h: "last_or (JArr [])
             (map history_payload (filter (has_tag ''stream_end'') (events json_loads ?b))) =
           JArr [JInt 2]"
    by code_simp
  show ?thesis using last_event_wins[OF wf] unfolding s h .
qed

text \<open>
  Claim C5, as the code has it. Empty lines, lines of no character, do not matter: a body
  built from any list of lines parses as the body built from the non-empty ones, and any
  body parses as itself with its empty lines removed.
\<close>

theorem blank_lines_ignored:
  "parse_ndjson_stream loads (join_nl ls) =
     parse_ndjson_stream loads (join_nl (filter (\<lambda>l. l \<noteq> []) ls)) \<and>
   parse_ndjson_stream loads body =
     parse_ndjson_stream loads (join_nl (filter (\<lambda>l. l \<noteq> []) (split_nl body)))"
proof -
  have eq: "parse_ndjson_stream loads (join_nl ks) =
     parse_ndjson_stream loads (join_nl (filter (\<lambda>l. l \<noteq> []) ks))" for ks
  proof -
    have "filter (\<lambda>l. l \<noteq> []) (split_nl (strip (join_nl (filter (\<lambda>l. l \<noteq> []) ks)))) =
          filter (\<lambda>l. l \<noteq> []) (split_nl (strip (join_nl ks)))"
      by (simp only: nonblank_strip nonblank_join_filter)
    then have "fold_lines loads (filter (\<lambda>l. l \<noteq> []) (split_nl (strip (join_nl (filter (\<lambda>l. l \<noteq> []) ks))))) =
          fold_lines loads (filter (\<lambda>l. l \<noteq> []) (split_nl (strip (join_nl ks))))"
      by simp
    then show ?thesis by (simp only: parse_ndjson_stream_def fold_lines_skip_blank)
  qed
  show ?thesis using eq[of ls] eq[of "split_nl body"] by (simp add: join_split)
qed

text \<open>
  Claim C5 as stated fails for a blank line that holds whitespace: \<open>if not line\<close> skips the
  empty string only. Between two text chunks, a line of one space, or the carriage return
  that a blank line leaves in a body with CRLF line ends, reaches \<open>json.loads\<close> and the
  parse raises JSONDecodeError; without the blank line the body parses to the response
  \<open>ab\<close>.
\<close>

theorem whitespace_blank_line_raises:
  \<open>parse_ndjson_stream json_loads
     (join_nl [''{"event": "text_chunk", "data": "a"}'', '' '',
               ''{"event": "text_chunk", "data": "b"}'']) = Inl JSONDecodeError \<and>
   parse_ndjson_stream json_loads
     (join_nl [''{"event": "text_chunk", "data": "a"}'' @ [CHR 0x0D], [CHR 0x0D],
               ''{"event": "text_chunk", "data": "b"}'']) = Inl JSONDecodeError \<and>
   parse_ndjson_stream json_loads
     (join_nl [''{"event": "text_chunk", "data": "a"}'',
               ''{"event": "text_chunk", "data": "b"}'']) =
     Inr [(''conversation_id'', JStr []), (''run_id'', JStr []), (''response'', JStr ''ab''),
          (''sources'', JArr []), (''conversation_history'', JArr [])]\<close>
  by code_simp

section \<open>Properties of the metrics\<close>

text \<open>
  Claim C7. The empty source list gives the all-zero record. For every source list the
  diversity is the number of distinct lowercase word tokens of the titles over the
  number of all their word tokens, and 0 when there is no token; for the titles
  \<open>ab cd\<close> and \<open>cd ef\<close> it is 3/4.
\<close>

theorem retrieval_metrics_diversity:
  "calculate_retrieval_metrics [] =
     \<lparr>num_sources = 0, avg_source_length = 0, source_diversity = 0\<rparr> \<and>
   source_diversity (calculate_retrieval_metrics srcs) =
     (let tokens = concat (map (\<lambda>s. findall_w (lower (get_title s))) srcs)
      in if tokens = [] then 0 else of_nat (card (set tokens)) / of_nat (length tokens)) \<and>
   source_diversity
     (calculate_retrieval_metrics [[(''title'', ''ab cd'')], [(''title'', ''cd ef'')]]) = 3 / 4"
proof -
  have a: "calculate_retrieval_metrics [] =
             \<lparr>num_sources = 0, avg_source_length = 0, source_diversity = 0\<rparr>"
    by (simp add: calculate_retrieval_metrics_def)
  have b: "source_diversity (calculate_retrieval_metrics srcs) =
     (let tokens = concat (map (\<lambda>s. findall_w (lower (get_title s))) srcs)
      in if tokens = [] then 0 else of_nat (card (set tokens)) / of_nat (length tokens))"
    for srcs
    by (simp add: calculate_retrieval_metrics_def Let_def findall_w_join_sp comp_def)
  have t1: "findall_w (lower ''ab cd'') = [''ab'', ''cd'']" by code_simp
  have t2: "findall_w (lower ''cd ef'') = [''cd'', ''ef'']" by code_simp
  have c: "source_diversity
      (calculate_retrieval_metrics [[(''title'', ''ab cd'')], [(''title'', ''cd ef'')]]) = 3 / 4"
    unfolding b by (simp add: get_title_def t1 t2 Let_def)
  show ?thesis using a b c by blast
qed

text \<open>
  Claim C8. The overlap is the number of unique lowercase words of the response that
  are among the unique lowercase words of the source titles, over the number of unique
  lowercase words of the response; it is 0 when either set is empty; and it lies
  between 0 and 1.
\<close>

theorem answer_source_overlap_ratio:
  "answer_source_overlap (calculate_answer_metrics resp srcs) =
     (let R = set (findall_w (lower resp));
          S = (\<Union>s \<in> set srcs. set (findall_w (lower (get_title s))))
      in if R = {} \<or> S = {} then 0 else of_nat (card (R \<inter> S)) / of_nat (card R)) \<and>
   0 \<le> answer_source_overlap (calculate_answer_metrics resp srcs) \<and>
   answer_source_overlap (calculate_answer_metrics resp srcs) \<le> 1"
proof -
  let ?R = "set (findall_w (lower resp))"
  let ?S = "(\<Union>s \<in> set srcs. set (findall_w (lower (get_title s))))"
  have eq: "answer_source_overlap (calculate_answer_metrics resp srcs) =
     (if ?R = {} \<or> ?S = {} then 0 else of_nat (card (?R \<inter> ?S)) / of_nat (card ?R))"
    by (simp add: calculate_answer_metrics_def Let_def title_words_union)
  have le: "card (?R \<inter> ?S) \<le> card ?R"
    by (rule card_mono) auto
  have "(of_nat (card (?R \<inter> ?S)) :: rat) / of_nat (card ?R) \<le> 1" if "?R \<noteq> {}"
  proof -
    have "0 < card ?R" using that by (simp add: card_gt_0_iff)
    then show ?thesis using le by (simp add: divide_le_eq_1)
  qed
  moreover have "0 \<le> (of_nat (card (?R \<inter> ?S)) :: rat) / of_nat (card ?R)" by simp
  ultimately show ?thesis unfolding eq by (simp add: Let_def)
qed

text \<open>
  Claim C10. For one response, whatever the source lists, \<open>has_citations\<close> of the
  faithfulness metrics is true exactly when \<open>citation_count\<close> of the answer metrics is at
  least 1: the search for the alternation finds a match exactly when one of the four
  patterns has a match to count.
\<close>

theorem has_citations_iff_citation_count:
  "has_citations (calculate_faithfulness_metrics resp srcs) \<longleftrightarrow>
   1 \<le> citation_count (calculate_answer_metrics resp srcs')"
  by (simp add: calculate_faithfulness_metrics_def calculate_answer_metrics_def Let_def
      citation_patterns_def citation_pattern_def search_alternative
      Suc_le_eq add_gr_0 findall_search)

text \<open>
  The response \<open>Ifoelge artikel er sne hvid.\<close> (with the o-slash) and no sources: two
  markers counted, one claim.
\<close>

lemma citations_example:
  "calculate_answer_metrics (''If'' @ [CHR 0xF8] @ ''lge artikel er sne hvid.'') [] =
     \<lparr>answer_length = 27, citation_count = 2, answer_source_overlap = 0\<rparr> \<and>
   calculate_faithfulness_metrics (''If'' @ [CHR 0xF8] @ ''lge artikel er sne hvid.'') [] =
     \<lparr>has_citations = True, claims_count = 1\<rparr>"
  by code_simp

text \<open>
  Claim C9. The ranking pairs every result with its score, lists the pairs by descending
  score, and is stable: the pairs of any one score \<open>k\<close> stand in the ranking in their
  original order. This holds for the scores however they are computed; the composite
  score is 0.2 num_sources + 0.2 source_diversity + 0.3 citation_count +
  0.3 answer_source_overlap.
\<close>

theorem ranking_stable_descending:
  "mset (ranked_by score results) = mset (map (\<lambda>r. (workflow_id r, score r)) results) \<and>
   sorted_wrt (\<lambda>a b. snd b \<le> snd a) (ranked_by score results) \<and>
   filter (\<lambda>x. snd x = k) (ranked_by score results) =
     filter (\<lambda>x. snd x = k) (map (\<lambda>r. (workflow_id r, score r)) results) \<and>
   ranking results = ranked_by composite_score results \<and>
   composite_score r =
     0.2 * of_nat (num_sources (retrieval r)) + 0.2 * source_diversity (retrieval r) +
     0.3 * of_nat (citation_count (answer r)) + 0.3 * answer_source_overlap (answer r)"
proof -
  have "composite_score r =
        0.2 * of_nat (num_sources (retrieval r)) + 0.2 * source_diversity (retrieval r) +
        0.3 * of_nat (citation_count (answer r)) + 0.3 * answer_source_overlap (answer r)"
    by (simp add: composite_score_def mult.commute)
  then show ?thesis
    unfolding ranking_def ranked_by_def by (simp add: sort_reverse_props)
qed

text \<open>
  Three results, the first and the last with the score 0: the second comes first and the
  two that tie keep their order.
\<close>

lemma ranking_example:
  "ranking
     [evaluate_response ''q'' ''w1'' ''sne'' [],
      evaluate_response ''q'' ''w2'' ''[a] sne'' [[(''title'', ''sne'')]],
      evaluate_response ''q'' ''w3'' ''is'' []] =
   [(''w2'', 17 / 20), (''w1'', 0), (''w3'', 0)]"
  by code_simp

end
